theory Spec2Isabelle
  imports Complex_Main "HOL-Library.Word"
begin

unbundle bit_operations_syntax

section \<open>Ring buffer between the tracker task and the mixer\<close>

text \<open>
  The globals \<^verbatim>\<open>mod_ring_buffer\<close>, \<^verbatim>\<open>mod_write_pos\<close> and \<^verbatim>\<open>mod_read_pos\<close> of
  \<^verbatim>\<open>modplayer_esp32.c\<close>. Samples are \<^verbatim>\<open>int16_t\<close>, the two indices \<^verbatim>\<open>uint32_t\<close>.
\<close>

record ring =
  mod_ring_buffer :: "16 word list"
  mod_write_pos :: "32 word"
  mod_read_pos :: "32 word"

text \<open>
  \<^verbatim>\<open>MOD_BUFFER_SIZE\<close> is declared in \<^verbatim>\<open>modplayer_esp32.h\<close>; the audio implementation
  guide of the repository gives \<^verbatim>\<open>#define MOD_BUFFER_SIZE 2048\<close>.
\<close>

definition MOD_BUFFER_SIZE :: "32 word" where
  "MOD_BUFFER_SIZE = 2048"

text \<open>
  The state the C code works on: the array has \<^verbatim>\<open>MOD_BUFFER_SIZE\<close> cells and both
  indices point into it, so every array access below is inside the array.
\<close>

definition ring_ok :: "ring \<Rightarrow> bool" where
  "ring_ok r \<longleftrightarrow>
     length (mod_ring_buffer r) = unat MOD_BUFFER_SIZE \<and>
     mod_write_pos r < MOD_BUFFER_SIZE \<and>
     mod_read_pos r < MOD_BUFFER_SIZE"

text \<open>\<^verbatim>\<open>modplayer_init\<close>: the buffer is zeroed and both indices are 0.\<close>

definition modplayer_init :: ring where
  "modplayer_init =
     \<lparr>mod_ring_buffer = replicate (unat MOD_BUFFER_SIZE) 0,
      mod_write_pos = 0, mod_read_pos = 0\<rparr>"

text \<open>
  The body of the inner \<^verbatim>\<open>for (j ...)\<close> loop of \<^verbatim>\<open>write_to_ring_buffer\<close>: one
  attempt to store \<^verbatim>\<open>scaled_sample\<close>. The \<^verbatim>\<open>continue\<close> branch leaves everything as it is.
\<close>

definition ring_put :: "16 word \<Rightarrow> ring \<Rightarrow> ring" where
  "ring_put scaled_sample r =
     (let next_pos = (mod_write_pos r + 1) mod MOD_BUFFER_SIZE in
      if next_pos = mod_read_pos r then r
      else r\<lparr>mod_ring_buffer :=
                 (mod_ring_buffer r)[unat (mod_write_pos r) := scaled_sample],
              mod_write_pos := next_pos\<rparr>)"

text \<open>
  \<^verbatim>\<open>write_to_ring_buffer\<close>: every input sample is scaled and stored twice. The scaling
  \<^verbatim>\<open>(int16_t)(samples[i] * MOD_VOLUME_SCALE)\<close> is single-precision arithmetic; it is the
  parameter \<open>scale\<close> here.
\<close>

fun write_to_ring_buffer :: "(16 word \<Rightarrow> 16 word) \<Rightarrow> 16 word list \<Rightarrow> ring \<Rightarrow> ring" where
  "write_to_ring_buffer scale [] r = r"
| "write_to_ring_buffer scale (s # samples) r =
     write_to_ring_buffer scale samples (ring_put (scale s) (ring_put (scale s) r))"

text \<open>
  The consumer side, from \<^verbatim>\<open>audio_task\<close> in \<^verbatim>\<open>main.c\<close>: when the indices differ the
  sample at \<^verbatim>\<open>mod_read_pos\<close> is taken and the index advances; otherwise nothing is read.
\<close>

definition ring_get :: "ring \<Rightarrow> 16 word option \<times> ring" where
  "ring_get r =
     (if mod_read_pos r \<noteq> mod_write_pos r
      then (Some (mod_ring_buffer r ! unat (mod_read_pos r)),
            r\<lparr>mod_read_pos := (mod_read_pos r + 1) mod MOD_BUFFER_SIZE\<rparr>)
      else (None, r))"

section \<open>Tracker module data\<close>

text \<open>The constants of \<^verbatim>\<open>modplayer_esp32.c\<close>.\<close>

definition MAX_SAMPLES :: nat where "MAX_SAMPLES = 31"
definition NUM_CHANNELS :: nat where "NUM_CHANNELS = 4"
definition ROWS_PER_PATTERN :: nat where "ROWS_PER_PATTERN = 64"
definition BYTES_PER_NOTE :: nat where "BYTES_PER_NOTE = 4"
definition SAMPLE_RATE :: int where "SAMPLE_RATE = 22050"
definition PROCESS_BUFFER_SIZE :: int where "PROCESS_BUFFER_SIZE = 1024"

text \<open>The struct \<^verbatim>\<open>Note\<close>: one pattern cell.\<close>

record Note =
  sample :: "8 word"
  period :: "16 word"
  effect :: "8 word"
  param :: "8 word"

text \<open>
  The struct \<^verbatim>\<open>Sample\<close>. The C field \<^verbatim>\<open>length\<close> is \<open>smp_length\<close> here (the name
  is taken by lists). The pointer \<^verbatim>\<open>data\<close> points into the module blob: it is the offset
  of the first sample byte in the blob, \<open>None\<close> for \<^verbatim>\<open>NULL\<close>.
\<close>

record Sample =
  name :: "8 word list"
  smp_length :: "16 word"
  finetune :: "8 word"
  volume :: "8 word"
  repeat_point :: "16 word"
  repeat_length :: "16 word"
  data :: "nat option"

text \<open>The struct \<^verbatim>\<open>MODFile\<close>; \<^verbatim>\<open>patterns\<close> is the allocated array of cells.\<close>

record MODFile =
  title :: "8 word list"
  samples :: "Sample list"
  song_length :: "8 word"
  positions :: "8 word list"
  num_patterns :: "8 word"
  patterns :: "Note list"

text \<open>The struct \<^verbatim>\<open>ChannelState\<close>.\<close>

record ChannelState =
  period :: "16 word"
  sample_num :: "8 word"
  volume :: "8 word"
  sample_pos :: "32 word"
  sample_increment :: "32 word"
  effect :: "8 word"
  param :: "8 word"

section \<open>Loading a module\<close>

text \<open>
  \<^verbatim>\<open>load_mod_embedded\<close> walks a pointer through the blob and never looks at
  \<^verbatim>\<open>data_len\<close>. In C a read outside the blob is undefined behaviour; the model makes it a
  result of its own, so that it can be told apart from the two returns of the function.
  The same holds for a read of \<^verbatim>\<open>positions[i]\<close> with \<open>i \<ge> 128\<close>.
\<close>

datatype load_result =
    Loaded MODFile    \<comment> \<open>\<^verbatim>\<open>return 1\<close>\<close>
  | LoadFailed        \<comment> \<open>\<^verbatim>\<open>return 0\<close>, after the error log\<close>
  | OutOfBounds       \<comment> \<open>a read outside the blob or outside \<^verbatim>\<open>positions\<close>\<close>

text \<open>Reading \<open>n\<close> bytes at offset \<open>ptr\<close> (\<^verbatim>\<open>memcpy\<close>, or \<open>n\<close> times \<^verbatim>\<open>*ptr++\<close>).\<close>

definition bytes_at :: "8 word list \<Rightarrow> nat \<Rightarrow> nat \<Rightarrow> 8 word list option" where
  "bytes_at blob ptr n =
     (if ptr + n \<le> length blob then Some (take n (drop ptr blob)) else None)"

text \<open>\<^verbatim>\<open>read_big_endian_16\<close>, on the two bytes it reads.\<close>

definition read_big_endian_16 :: "8 word \<Rightarrow> 8 word \<Rightarrow> 16 word" where
  "read_big_endian_16 d0 d1 = push_bit 8 (ucast d0) OR ucast d1"

text \<open>
  One round of the sample-information loop, on the 30 bytes it reads: 22 of name (the
  last one overwritten by 0), the length in words, finetune, volume, repeat point and
  repeat length. The three 16-bit values are doubled and stored back into
  \<^verbatim>\<open>uint16_t\<close> fields, so the doubling wraps at 16 bits.
\<close>

definition read_sample_info :: "8 word list \<Rightarrow> Sample" where
  "read_sample_info b =
     \<lparr>name = take 21 b @ [0],
      smp_length = read_big_endian_16 (b ! 22) (b ! 23) * 2,
      finetune = b ! 24,
      volume = b ! 25,
      repeat_point = read_big_endian_16 (b ! 26) (b ! 27) * 2,
      repeat_length = read_big_endian_16 (b ! 28) (b ! 29) * 2,
      data = None\<rparr>"

fun read_samples :: "8 word list \<Rightarrow> nat \<Rightarrow> nat \<Rightarrow> Sample list option" where
  "read_samples blob ptr 0 = Some []"
| "read_samples blob ptr (Suc n) =
     (case bytes_at blob ptr 30 of
        None \<Rightarrow> None
      | Some b \<Rightarrow>
          (case read_samples blob (ptr + 30) n of
             None \<Rightarrow> None
           | Some ss \<Rightarrow> Some (read_sample_info b # ss)))"

text \<open>
  The loop that determines the number of patterns: the largest entry among the first
  \<^verbatim>\<open>song_length\<close> positions, held in a \<^verbatim>\<open>uint8_t\<close>.
\<close>

fun max_position :: "8 word list \<Rightarrow> 8 word \<Rightarrow> 8 word" where
  "max_position [] n = n"
| "max_position (p # ps) n = max_position ps (if p > n then p else n)"

text \<open>Decoding the four bytes of a pattern cell.\<close>

definition decode_note :: "8 word \<Rightarrow> 8 word \<Rightarrow> 8 word \<Rightarrow> 8 word \<Rightarrow> Note" where
  "decode_note b0 b1 b2 b3 =
     \<lparr>sample = (b0 AND 0xF0) OR drop_bit 4 b2,
      period = push_bit 8 (ucast (b0 AND 0x0F)) OR ucast b1,
      effect = b2 AND 0x0F,
      param = b3\<rparr>"

text \<open>
  The three nested loops over patterns, rows and channels read the cells one after the
  other; \<open>n\<close> is the number of cells still to read.
\<close>

fun read_pattern_data :: "8 word list \<Rightarrow> nat \<Rightarrow> nat \<Rightarrow> Note list option" where
  "read_pattern_data blob ptr 0 = Some []"
| "read_pattern_data blob ptr (Suc n) =
     (case bytes_at blob ptr BYTES_PER_NOTE of
        None \<Rightarrow> None
      | Some b \<Rightarrow>
          (case read_pattern_data blob (ptr + BYTES_PER_NOTE) n of
             None \<Rightarrow> None
           | Some ns \<Rightarrow> Some (decode_note (b ! 0) (b ! 1) (b ! 2) (b ! 3) # ns)))"

text \<open>
  The last loop sets the sample data pointers; it moves the pointer and reads nothing.
\<close>

fun set_sample_data :: "Sample list \<Rightarrow> nat \<Rightarrow> Sample list" where
  "set_sample_data [] ptr = []"
| "set_sample_data (s # ss) ptr =
     (if smp_length s > 0
      then s\<lparr>data := Some ptr\<rparr> # set_sample_data ss (ptr + unat (smp_length s))
      else s\<lparr>data := None\<rparr> # set_sample_data ss ptr)"

text \<open>
  \<^verbatim>\<open>load_mod_embedded\<close>. The offsets are those the pointer has at each step: title at 0,
  sample information at 20, song length at 950, one unused byte, positions at 952, four
  skipped bytes, pattern data at 1084. \<open>alloc_ok\<close> says whether \<^verbatim>\<open>malloc\<close> returned memory.
\<close>

definition load_mod_embedded :: "bool \<Rightarrow> 8 word list \<Rightarrow> load_result" where
  "load_mod_embedded alloc_ok blob =
     (case bytes_at blob 0 20 of
        None \<Rightarrow> OutOfBounds
      | Some title_bytes \<Rightarrow>
     (case read_samples blob 20 MAX_SAMPLES of
        None \<Rightarrow> OutOfBounds
      | Some smps \<Rightarrow>
     (case bytes_at blob 950 1 of
        None \<Rightarrow> OutOfBounds
      | Some len_byte \<Rightarrow>
     (case bytes_at blob 952 128 of
        None \<Rightarrow> OutOfBounds
      | Some pos \<Rightarrow>
          let song_len = len_byte ! 0 in
          if 128 < unat song_len then OutOfBounds
          else
            let n_pat = max_position (take (unat song_len) pos) 0 + 1;
                cells = unat n_pat * ROWS_PER_PATTERN * NUM_CHANNELS
            in
              if \<not> alloc_ok then LoadFailed
              else
                (case read_pattern_data blob 1084 cells of
                   None \<Rightarrow> OutOfBounds
                 | Some notes \<Rightarrow>
                     Loaded
                       \<lparr>title = title_bytes @ [0],
                        samples = set_sample_data smps (1084 + cells * BYTES_PER_NOTE),
                        song_length = song_len,
                        positions = pos,
                        num_patterns = n_pat,
                        patterns = notes\<rparr>)))))"

section \<open>Tracker sequencing\<close>

text \<open>Integer division of C, which truncates towards zero.\<close>

definition c_div :: "int \<Rightarrow> int \<Rightarrow> int" where
  "c_div a b = (if (a < 0) = (b < 0) then \<bar>a\<bar> div \<bar>b\<bar> else - (\<bar>a\<bar> div \<bar>b\<bar>))"

text \<open>\<^verbatim>\<open>calculate_tick_samples\<close>.\<close>

definition calculate_tick_samples :: "int \<Rightarrow> int" where
  "calculate_tick_samples tempo = c_div (2500 * SAMPLE_RATE) (tempo * 1000)"

text \<open>
  The body of the channel loop of \<^verbatim>\<open>process_row\<close>, for one cell and one channel. The
  sample increment \<^verbatim>\<open>(uint32_t)((freq * 65536.0f) / SAMPLE_RATE)\<close> is single-precision
  arithmetic on \<^verbatim>\<open>period_to_freq\<close>; it is the parameter \<open>increment\<close>, a function of the
  period.
\<close>

definition process_note ::
  "(16 word \<Rightarrow> 32 word) \<Rightarrow> MODFile \<Rightarrow> Note \<Rightarrow> ChannelState \<Rightarrow> ChannelState" where
  "process_note increment m note ch =
     (let ch1 = (if Note.sample note > 0
                 then ch\<lparr>sample_num := Note.sample note,
                         ChannelState.volume :=
                           Sample.volume (samples m ! (unat (Note.sample note) - 1))\<rparr>
                 else ch);
          ch2 = (if Note.period note \<noteq> 0 \<and> Note.effect note \<noteq> 0x3
                 then ch1\<lparr>ChannelState.period := Note.period note,
                          sample_pos := 0,
                          sample_increment := increment (Note.period note)\<rparr>
                 else ch1);
          ch3 = ch2\<lparr>ChannelState.effect := Note.effect note,
                    ChannelState.param := Note.param note\<rparr>
      in if Note.effect note = 0xC \<and> Note.param note \<le> 64
         then ch3\<lparr>ChannelState.volume := Note.param note\<rparr>
         else ch3)"

text \<open>\<^verbatim>\<open>process_row\<close>: the cell of channel \<open>c\<close> is applied to channel \<open>c\<close>.\<close>

definition process_row ::
  "(16 word \<Rightarrow> 32 word) \<Rightarrow> MODFile \<Rightarrow> ChannelState list \<Rightarrow> nat \<Rightarrow> nat \<Rightarrow> ChannelState list" where
  "process_row increment m channels position row =
     (let pattern = unat (positions m ! position);
          pattern_data = pattern * ROWS_PER_PATTERN * NUM_CHANNELS
      in map (\<lambda>c. process_note increment m
                     (patterns m ! (pattern_data + row * NUM_CHANNELS + c)) (channels ! c))
             [0..<NUM_CHANNELS])"

text \<open>The local variables of \<^verbatim>\<open>modplayer_task\<close> that make up the player state.\<close>

record player =
  position :: int
  row :: int
  ticks_per_row :: int
  current_tick :: int
  tempo :: int
  samples_per_tick :: int

text \<open>Their values when the playback loop is entered.\<close>

definition player_start :: player where
  "player_start =
     \<lparr>position = 0, row = 0, ticks_per_row = 5, current_tick = 0,
      tempo = 125, samples_per_tick = calculate_tick_samples 125\<rparr>"

text \<open>
  The effect check after \<^verbatim>\<open>process_row\<close>: a loop over the channels that stops at the
  first pattern break.
\<close>

fun check_effects :: "ChannelState list \<Rightarrow> player \<Rightarrow> player" where
  "check_effects [] p = p"
| "check_effects (ch # channels) p =
     (if effect ch = 0xD then p\<lparr>row := int ROWS_PER_PATTERN - 1\<rparr>
      else if effect ch = 0xF \<and> param ch \<le> 0x1F
      then check_effects channels
             (if param ch > 0 then p\<lparr>ticks_per_row := uint (param ch)\<rparr> else p)
      else if effect ch = 0xF \<and> param ch \<ge> 0x20
      then check_effects channels
             (p\<lparr>tempo := uint (param ch),
                samples_per_tick := calculate_tick_samples (uint (param ch))\<rparr>)
      else check_effects channels p)"

text \<open>The first part of the loop body: on tick 0 the row is processed.\<close>

definition row_phase ::
  "(16 word \<Rightarrow> 32 word) \<Rightarrow> MODFile \<Rightarrow> ChannelState list \<times> player
     \<Rightarrow> ChannelState list \<times> player" where
  "row_phase increment m cp =
     (case cp of (channels, p) \<Rightarrow>
        if current_tick p = 0
        then (let channels' = process_row increment m channels
                                (nat (position p)) (nat (row p))
              in (channels', check_effects channels' p))
        else (channels, p))"

text \<open>The number of samples generated for the tick.\<close>

definition samples_to_generate :: "player \<Rightarrow> int" where
  "samples_to_generate p =
     (if samples_per_tick p < PROCESS_BUFFER_SIZE then samples_per_tick p
      else PROCESS_BUFFER_SIZE)"

text \<open>The last part of the loop body: the tick counter, the row and the position.\<close>

definition update_tick :: "MODFile \<Rightarrow> player \<Rightarrow> player" where
  "update_tick m p =
     (let p1 = p\<lparr>current_tick := current_tick p + 1\<rparr> in
      if current_tick p1 \<ge> ticks_per_row p1
      then (let p2 = p1\<lparr>current_tick := 0, row := row p1 + 1\<rparr> in
            if row p2 \<ge> int ROWS_PER_PATTERN
            then (let p3 = p2\<lparr>row := 0, position := position p2 + 1\<rparr> in
                  if position p3 \<ge> uint (song_length m) then p3\<lparr>position := 0\<rparr> else p3)
            else p2)
      else p1)"

text \<open>
  One round of the playback loop. Between the two parts above, \<^verbatim>\<open>process_tick\<close> and
  \<^verbatim>\<open>write_to_ring_buffer\<close> produce the audio of the tick, for the number of samples
  just computed; of the state modelled here they write only the channels (sample
  position and period), which is the parameter \<open>audio\<close>.
\<close>

definition playback_round ::
  "(16 word \<Rightarrow> 32 word) \<Rightarrow> (int \<Rightarrow> ChannelState list \<Rightarrow> ChannelState list) \<Rightarrow> MODFile
     \<Rightarrow> ChannelState list \<times> player \<Rightarrow> ChannelState list \<times> player" where
  "playback_round increment audio m cp =
     (case row_phase increment m cp of
        (channels, p) \<Rightarrow> (audio (samples_to_generate p) channels, update_tick m p))"


definition channels_start :: "ChannelState list" where
  "channels_start =
     replicate NUM_CHANNELS
       \<lparr>period = 0, sample_num = 0, volume = 0, sample_pos = 0, sample_increment = 0,
        effect = 0, param = 0\<rparr>"


text \<open>
  Data for the examples: a module of one pattern whose cells are all empty, with song
  length 1, and an increment function that is constantly 0.
\<close>

definition empty_note :: Note where
  "empty_note = \<lparr>sample = 0, period = 0, effect = 0, param = 0\<rparr>"

definition empty_sample :: Sample where
  "empty_sample =
     \<lparr>name = replicate 22 0, smp_length = 0, finetune = 0, volume = 0,
      repeat_point = 0, repeat_length = 0, data = None\<rparr>"

definition silent_mod :: MODFile where
  "silent_mod =
     \<lparr>title = replicate 21 0,
      samples = replicate MAX_SAMPLES empty_sample,
      song_length = 1,
      positions = replicate 128 0,
      num_patterns = 1,
      patterns = replicate (ROWS_PER_PATTERN * NUM_CHANNELS) empty_note\<rparr>"

definition zero_increment :: "16 word \<Rightarrow> 32 word" where
  "zero_increment p = 0"

text \<open>
  The audio phase for that module: none of its cells gives a channel a period, and
  \<^verbatim>\<open>process_tick\<close> skips a channel whose period is 0, so the channels stay as they are.
\<close>

definition no_audio :: "int \<Rightarrow> ChannelState list \<Rightarrow> ChannelState list" where
  "no_audio n channels = channels"

text \<open>
  The number of patterns a blob declares, as the loader computes it from the song length
  at offset 950 and the position table at offset 952.
\<close>

definition declared_patterns :: "8 word list \<Rightarrow> 8 word" where
  "declared_patterns blob =
     max_position (take (unat (blob ! 950)) (take 128 (drop 952 blob))) 0 + 1"

section \<open>Keyboard voices and their envelopes\<close>

text \<open>
  The voice pool of the keyboard application: \<^verbatim>\<open>update_adsr\<close>, the note loop and the
  normalization of \<^verbatim>\<open>audio_task\<close>, \<^verbatim>\<open>start_note\<close> and \<^verbatim>\<open>stop_note\<close>. The \<^verbatim>\<open>float\<close>
  values of the C code are real numbers here: the model computes without rounding.
\<close>

datatype adsr_state_t = ADSR_IDLE | ADSR_ATTACK | ADSR_DECAY | ADSR_SUSTAIN | ADSR_RELEASE

text \<open>The struct \<^verbatim>\<open>active_note_t\<close>; the timer is a \<^verbatim>\<open>uint32_t\<close>.\<close>

record active_note_t =
  note_index :: int
  playback_position :: real
  playback_speed :: real
  adsr_state :: adsr_state_t
  adsr_timer :: "32 word"
  adsr_level :: real
  key_held :: bool

definition MAX_ACTIVE_NOTES :: nat where "MAX_ACTIVE_NOTES = 13"

text \<open>
  The constants of \<^verbatim>\<open>keyboard_notes.h\<close> and \<^verbatim>\<open>keyboard_waveform.h\<close>, with the values the
  implementation log of the repository records: 13 notes; attack 220 samples, decay 4410
  samples, sustain at 70 percent, release 2205 samples; a waveform cycle of 169 samples
  at a base frequency of 261.63 Hz.
\<close>

definition NUM_NOTES :: int where "NUM_NOTES = 13"
definition ADSR_ATTACK_SAMPLES :: nat where "ADSR_ATTACK_SAMPLES = 220"
definition ADSR_DECAY_SAMPLES :: nat where "ADSR_DECAY_SAMPLES = 4410"
definition ADSR_RELEASE_SAMPLES :: nat where "ADSR_RELEASE_SAMPLES = 2205"
definition ADSR_SUSTAIN_LEVEL :: real where "ADSR_SUSTAIN_LEVEL = 7 / 10"
definition WAVEFORM_CYCLE_LENGTH :: nat where "WAVEFORM_CYCLE_LENGTH = 169"
definition WAVEFORM_BASE_FREQ :: real where "WAVEFORM_BASE_FREQ = 26163 / 100"

text \<open>\<^verbatim>\<open>update_adsr\<close>, one case of the switch after the other.\<close>

definition update_adsr :: "active_note_t \<Rightarrow> active_note_t" where
  "update_adsr note =
     (case adsr_state note of
        ADSR_IDLE \<Rightarrow> note\<lparr>adsr_level := 0\<rparr>
      | ADSR_ATTACK \<Rightarrow>
          (let n1 = note\<lparr>adsr_timer := adsr_timer note + 1\<rparr>;
               n2 = n1\<lparr>adsr_level :=
                         real (unat (adsr_timer n1)) / real ADSR_ATTACK_SAMPLES\<rparr>
           in if unat (adsr_timer n2) \<ge> ADSR_ATTACK_SAMPLES
              then n2\<lparr>adsr_state := ADSR_DECAY, adsr_timer := 0, adsr_level := 1\<rparr>
              else n2)
      | ADSR_DECAY \<Rightarrow>
          (let n1 = note\<lparr>adsr_timer := adsr_timer note + 1\<rparr>;
               decay_progress = real (unat (adsr_timer n1)) / real ADSR_DECAY_SAMPLES;
               n2 = n1\<lparr>adsr_level := 1 - (1 - ADSR_SUSTAIN_LEVEL) * decay_progress\<rparr>
           in if unat (adsr_timer n2) \<ge> ADSR_DECAY_SAMPLES
              then n2\<lparr>adsr_state := ADSR_SUSTAIN, adsr_level := ADSR_SUSTAIN_LEVEL\<rparr>
              else n2)
      | ADSR_SUSTAIN \<Rightarrow>
          (let n1 = note\<lparr>adsr_level := ADSR_SUSTAIN_LEVEL\<rparr>
           in if \<not> key_held n1
              then n1\<lparr>adsr_state := ADSR_RELEASE, adsr_timer := 0\<rparr>
              else n1)
      | ADSR_RELEASE \<Rightarrow>
          (let n1 = note\<lparr>adsr_timer := adsr_timer note + 1\<rparr>;
               release_progress = real (unat (adsr_timer n1)) / real ADSR_RELEASE_SAMPLES;
               n2 = n1\<lparr>adsr_level := ADSR_SUSTAIN_LEVEL * (1 - release_progress)\<rparr>
           in if unat (adsr_timer n2) \<ge> ADSR_RELEASE_SAMPLES
              then n2\<lparr>adsr_state := ADSR_IDLE, adsr_level := 0, note_index := -1\<rparr>
              else n2))"

text \<open>
  The body of the note loop of \<^verbatim>\<open>audio_task\<close>, as far as it writes the note: a note
  that is not idle has its envelope updated and its playback position advanced. (The
  sample it contributes to the mix is read from the waveform table and is not part of
  the state.)
\<close>

definition mix_note :: "active_note_t \<Rightarrow> active_note_t" where
  "mix_note note =
     (if adsr_state note \<noteq> ADSR_IDLE
      then (let n1 = update_adsr note;
                n2 = n1\<lparr>playback_position := playback_position n1 + playback_speed n1\<rparr>
            in if playback_position n2 \<ge> real (WAVEFORM_CYCLE_LENGTH * 1000)
               then n2\<lparr>playback_position :=
                         playback_position n2 - real (WAVEFORM_CYCLE_LENGTH * 1000)\<rparr>
               else n2)
      else note)"

text \<open>\<^verbatim>\<open>active_count\<close>: the notes that are not idle when the loop reaches them.\<close>

definition active_count :: "active_note_t list \<Rightarrow> nat" where
  "active_count notes = length (filter (\<lambda>n. adsr_state n \<noteq> ADSR_IDLE) notes)"

text \<open>
  The normalization step of \<^verbatim>\<open>audio_task\<close>: the new value of
  \<^verbatim>\<open>current_normalization\<close>.
\<close>

definition normalize :: "nat \<Rightarrow> real \<Rightarrow> real" where
  "normalize count current_normalization =
     (if count > 0
      then (let target_normalization = 1 / sqrt (real count);
                alpha = 1 / 100
            in current_normalization
                 + alpha * (target_normalization - current_normalization))
      else 1)"

text \<open>
  One round of the frame loop of \<^verbatim>\<open>audio_task\<close> (one output sample), on the notes and
  the normalization factor.
\<close>

definition audio_frame :: "active_note_t list \<times> real \<Rightarrow> active_note_t list \<times> real" where
  "audio_frame s =
     (case s of (active_notes, current_normalization) \<Rightarrow>
        (map mix_note active_notes,
         normalize (active_count active_notes) current_normalization))"

text \<open>
  The slot search of \<^verbatim>\<open>start_note\<close>: \<open>i\<close> is the loop index, \<open>slot\<close> the variable of
  the same name, \<open>-1\<close> while no slot is chosen. A slot that already holds the note ends
  the search.
\<close>

fun find_slot :: "int \<Rightarrow> active_note_t list \<Rightarrow> int \<Rightarrow> int \<Rightarrow> int" where
  "find_slot n [] i slot = slot"
| "find_slot n (a # active_notes) i slot =
     (if note_index a = n then i
      else find_slot n active_notes (i + 1)
             (if slot = -1 \<and> adsr_state a = ADSR_IDLE then i else slot))"

text \<open>
  \<^verbatim>\<open>start_note\<close>. The table \<^verbatim>\<open>note_defs\<close> is in \<^verbatim>\<open>keyboard_notes.h\<close>; the frequency it
  gives for a note is the parameter \<open>frequency\<close>.
\<close>

definition start_note :: "(int \<Rightarrow> real) \<Rightarrow> int \<Rightarrow> active_note_t list \<Rightarrow> active_note_t list" where
  "start_note frequency n active_notes =
     (if n < 0 \<or> n \<ge> NUM_NOTES then active_notes
      else
        (let slot = find_slot n active_notes 0 (-1) in
         if slot \<ge> 0
         then active_notes[nat slot :=
                (active_notes ! nat slot)
                  \<lparr>note_index := n,
                   playback_position := 0,
                   playback_speed := frequency n / WAVEFORM_BASE_FREQ,
                   adsr_state := ADSR_ATTACK,
                   adsr_timer := 0,
                   adsr_level := 0,
                   key_held := True\<rparr>]
         else active_notes))"

text \<open>\<^verbatim>\<open>stop_note\<close>.\<close>

definition stop_note :: "int \<Rightarrow> active_note_t list \<Rightarrow> active_note_t list" where
  "stop_note n active_notes =
     (if n < 0 \<or> n \<ge> NUM_NOTES then active_notes
      else map (\<lambda>a. if note_index a = n then a\<lparr>key_held := False\<rparr> else a) active_notes)"

text \<open>
  The pool as \<^verbatim>\<open>app_main\<close> initialises it (zeroed, every slot free and idle), and the
  initial normalization factor.
\<close>

definition active_notes_init :: "active_note_t list" where
  "active_notes_init =
     replicate MAX_ACTIVE_NOTES
       \<lparr>note_index = -1, playback_position = 0, playback_speed = 0,
        adsr_state = ADSR_IDLE, adsr_timer = 0, adsr_level = 0, key_held = False\<rparr>"

definition audio_init :: "active_note_t list \<times> real" where
  "audio_init = (active_notes_init, 1)"

text \<open>
  What happens to the pool over time: calls of \<^verbatim>\<open>start_note\<close> and \<^verbatim>\<open>stop_note\<close> from
  the input loop, and rounds of the frame loop, in any order.
\<close>

datatype event = Start int | Stop int | Sample_Tick

fun apply_event ::
  "(int \<Rightarrow> real) \<Rightarrow> active_note_t list \<times> real \<Rightarrow> event \<Rightarrow> active_note_t list \<times> real" where
  "apply_event frequency (notes, gain) (Start n) = (start_note frequency n notes, gain)"
| "apply_event frequency (notes, gain) (Stop n) = (stop_note n notes, gain)"
| "apply_event frequency (notes, gain) Sample_Tick = audio_frame (notes, gain)"

definition run ::
  "(int \<Rightarrow> real) \<Rightarrow> event list \<Rightarrow> active_note_t list \<times> real" where
  "run frequency events = foldl (apply_event frequency) audio_init events"

text \<open>A frequency table for the examples: every note at 440 Hz.\<close>

definition all_440 :: "int \<Rightarrow> real" where
  "all_440 n = 440"

text \<open>
  The invariant of a slot: the level is between 0 and 1; an idle slot has level 0 and is
  free; the timer of a ramp has not yet reached the length of the ramp; a slot in its
  release phase is not held.
\<close>

definition voice_ok :: "active_note_t \<Rightarrow> bool" where
  "voice_ok a \<longleftrightarrow>
     0 \<le> adsr_level a \<and> adsr_level a \<le> 1 \<and>
     (case adsr_state a of
        ADSR_IDLE \<Rightarrow> adsr_level a = 0 \<and> note_index a = -1
      | ADSR_ATTACK \<Rightarrow> unat (adsr_timer a) < ADSR_ATTACK_SAMPLES
      | ADSR_DECAY \<Rightarrow> unat (adsr_timer a) < ADSR_DECAY_SAMPLES
      | ADSR_SUSTAIN \<Rightarrow> True
      | ADSR_RELEASE \<Rightarrow> unat (adsr_timer a) < ADSR_RELEASE_SAMPLES \<and> \<not> key_held a)"

definition pool_ok :: "active_note_t list \<Rightarrow> bool" where
  "pool_ok notes \<longleftrightarrow> (\<forall>a \<in> set notes. voice_ok a)"

section \<open>Properties of the ring buffer\<close>

lemma MOD_BUFFER_SIZE_pos: "0 < MOD_BUFFER_SIZE"
  by (simp add: MOD_BUFFER_SIZE_def)

lemma next_pos_in_range: "(p + 1) mod MOD_BUFFER_SIZE < MOD_BUFFER_SIZE"
  using MOD_BUFFER_SIZE_pos by (rule word_mod_less_divisor)

lemma ring_ok_init: "ring_ok modplayer_init"
  by (simp add: ring_ok_def modplayer_init_def MOD_BUFFER_SIZE_def)

lemma ring_ok_put: "ring_ok r \<Longrightarrow> ring_ok (ring_put s r)"
  by (simp add: ring_ok_def ring_put_def Let_def next_pos_in_range)

lemma ring_ok_get: "ring_ok r \<Longrightarrow> ring_ok (snd (ring_get r))"
  by (simp add: ring_ok_def ring_get_def next_pos_in_range)

lemma read_pos_put: "mod_read_pos (ring_put s r) = mod_read_pos r"
  by (simp add: ring_put_def Let_def)

lemma ring_ok_write: "ring_ok r \<Longrightarrow> ring_ok (write_to_ring_buffer scale xs r)"
  by (induction xs arbitrary: r) (simp_all add: ring_ok_put)

lemma read_pos_write: "mod_read_pos (write_to_ring_buffer scale xs r) = mod_read_pos r"
  by (induction xs arbitrary: r) (simp_all add: read_pos_put)

lemma write_index_inside:
  "ring_ok r \<Longrightarrow> unat (mod_write_pos r) < length (mod_ring_buffer r)"
  by (simp add: ring_ok_def word_less_nat_alt)

text \<open>
  Claim C1. In every state of the ring buffer (array of \<^verbatim>\<open>MOD_BUFFER_SIZE\<close> cells, both
  indices inside it) a producer write computes the next write position modulo the
  capacity; if that position is the read index the sample is dropped and the buffer, the
  write index and the read index stay as they were; otherwise the sample is stored at the
  write index and the write index becomes the next position. A consumer read yields no
  sample exactly when the read index equals the write index, and otherwise yields the
  sample at the read index and advances the read index modulo the capacity. Both
  operations are total functions that return no error value, and both keep the indices
  inside the array.
\<close>

theorem ring_buffer_contract:
  assumes "ring_ok r"
  shows "(let next_pos = (mod_write_pos r + 1) mod MOD_BUFFER_SIZE in
           (next_pos = mod_read_pos r \<longrightarrow> ring_put s r = r) \<and>
           (next_pos \<noteq> mod_read_pos r \<longrightarrow>
              ring_put s r =
                r\<lparr>mod_ring_buffer := (mod_ring_buffer r)[unat (mod_write_pos r) := s],
                  mod_write_pos := next_pos\<rparr> \<and>
              mod_ring_buffer (ring_put s r) ! unat (mod_write_pos r) = s \<and>
              mod_read_pos (ring_put s r) = mod_read_pos r)) \<and>
         (fst (ring_get r) = None \<longleftrightarrow> mod_read_pos r = mod_write_pos r) \<and>
         (mod_read_pos r = mod_write_pos r \<longrightarrow> snd (ring_get r) = r) \<and>
         (mod_read_pos r \<noteq> mod_write_pos r \<longrightarrow>
            ring_get r =
              (Some (mod_ring_buffer r ! unat (mod_read_pos r)),
               r\<lparr>mod_read_pos := (mod_read_pos r + 1) mod MOD_BUFFER_SIZE\<rparr>)) \<and>
         ring_ok (ring_put s r) \<and> ring_ok (snd (ring_get r))"
proof -
  have inside: "unat (mod_write_pos r) < length (mod_ring_buffer r)"
    using assms by (rule write_index_inside)
  have put: "let next_pos = (mod_write_pos r + 1) mod MOD_BUFFER_SIZE in
           (next_pos = mod_read_pos r \<longrightarrow> ring_put s r = r) \<and>
           (next_pos \<noteq> mod_read_pos r \<longrightarrow>
              ring_put s r =
                r\<lparr>mod_ring_buffer := (mod_ring_buffer r)[unat (mod_write_pos r) := s],
                  mod_write_pos := next_pos\<rparr> \<and>
              mod_ring_buffer (ring_put s r) ! unat (mod_write_pos r) = s \<and>
              mod_read_pos (ring_put s r) = mod_read_pos r)"
    using inside by (simp add: ring_put_def Let_def)
  have get: "(fst (ring_get r) = None \<longleftrightarrow> mod_read_pos r = mod_write_pos r) \<and>
         (mod_read_pos r = mod_write_pos r \<longrightarrow> snd (ring_get r) = r) \<and>
         (mod_read_pos r \<noteq> mod_write_pos r \<longrightarrow>
            ring_get r =
              (Some (mod_ring_buffer r ! unat (mod_read_pos r)),
               r\<lparr>mod_read_pos := (mod_read_pos r + 1) mod MOD_BUFFER_SIZE\<rparr>))"
    by (simp add: ring_get_def)
  from put get ring_ok_put [OF assms] ring_ok_get [OF assms] show ?thesis
    by blast
qed

theorem ring_buffer_contract_witness:
  "ring_ok modplayer_init \<and>
   mod_write_pos (ring_put 7 modplayer_init) = 1 \<and>
   mod_ring_buffer (ring_put 7 modplayer_init) ! 0 = 7 \<and>
   fst (ring_get modplayer_init) = None \<and>
   fst (ring_get (ring_put 7 modplayer_init)) = Some 7"
proof -
  have ok: "ring_ok modplayer_init" by (rule ring_ok_init)
  have ok': "ring_ok (ring_put 7 modplayer_init)" using ok by (rule ring_ok_put)
  have a: "mod_write_pos (ring_put 7 modplayer_init) = 1 \<and>
   mod_ring_buffer (ring_put 7 modplayer_init) ! 0 = 7 \<and>
   fst (ring_get modplayer_init) = None"
  using ring_buffer_contract [OF ok, of 7]
    by (simp add: Let_def modplayer_init_def MOD_BUFFER_SIZE_def)
  show ?thesis using ok a ring_buffer_contract [OF ok', of 0]
    by (simp add: Let_def modplayer_init_def MOD_BUFFER_SIZE_def ring_put_def)
qed

section \<open>Properties of the loader\<close>

lemma bytes_at_inside:
  "ptr + n \<le> length blob \<Longrightarrow> bytes_at blob ptr n = Some (take n (drop ptr blob))"
  by (simp add: bytes_at_def)


lemma read_samples_inside:
  "ptr + 30 * n \<le> length blob \<Longrightarrow> \<exists>ss. read_samples blob ptr n = Some ss \<and> length ss = n"
proof (induction n arbitrary: ptr)
  case 0
  show ?case by simp
next
  case (Suc n)
  then have "ptr + 30 \<le> length blob" and "(ptr + 30) + 30 * n \<le> length blob" by simp_all
  with Suc.IH [of "ptr + 30"] show ?case by (auto simp: bytes_at_inside)
qed





lemma load_header:
  assumes "1080 \<le> length blob"
  shows "\<exists>smps. length smps = MAX_SAMPLES \<and>
     load_mod_embedded alloc_ok blob =
       (if 128 < unat (blob ! 950) then OutOfBounds
        else if \<not> alloc_ok then LoadFailed
        else (case read_pattern_data blob 1084
                     (unat (declared_patterns blob) * ROWS_PER_PATTERN * NUM_CHANNELS) of
                None \<Rightarrow> OutOfBounds
              | Some notes \<Rightarrow>
                  Loaded
                    \<lparr>title = take 20 blob @ [0],
                     samples = set_sample_data smps
                       (1084 + unat (declared_patterns blob) * ROWS_PER_PATTERN * NUM_CHANNELS
                          * BYTES_PER_NOTE),
                     song_length = blob ! 950,
                     positions = take 128 (drop 952 blob),
                     num_patterns = declared_patterns blob,
                     patterns = notes\<rparr>))"
proof -
  from assms have "20 + 30 * MAX_SAMPLES \<le> length blob" by (simp add: MAX_SAMPLES_def)
  from read_samples_inside [OF this] obtain smps
    where smps: "read_samples blob 20 MAX_SAMPLES = Some smps" "length smps = MAX_SAMPLES"
    by blast
  have t: "bytes_at blob 0 20 = Some (take 20 blob)"
    using assms by (simp add: bytes_at_def)
  have l: "bytes_at blob 950 (Suc 0) = Some (take (Suc 0) (drop 950 blob))"
    using assms by (simp add: bytes_at_def)
  have l0: "take (Suc 0) (drop 950 blob) ! 0 = blob ! 950"
    using assms by simp
  have p: "bytes_at blob 952 128 = Some (take 128 (drop 952 blob))"
    using assms by (simp add: bytes_at_def)
  show ?thesis
    by (rule exI [of _ smps])
       (simp add: smps load_mod_embedded_def t l l0 p Let_def declared_patterns_def
          split: option.splits)
qed

lemma load_table_overrun:
  "1080 \<le> length blob \<Longrightarrow> 128 < unat (blob ! 950) \<Longrightarrow>
   load_mod_embedded alloc_ok blob = OutOfBounds"
  using load_header [of blob alloc_ok] by auto

lemma load_alloc_failed:
  "1080 \<le> length blob \<Longrightarrow> unat (blob ! 950) \<le> 128 \<Longrightarrow>
   load_mod_embedded False blob = LoadFailed"
  using load_header [of blob False] by auto










section \<open>Properties of the tracker sequencer\<close>

lemma c_div_nonneg: "0 \<le> a \<Longrightarrow> 0 < b \<Longrightarrow> c_div a b = a div b"
  by (simp add: c_div_def)

lemma tick_samples_pos:
  "0 < t \<Longrightarrow> calculate_tick_samples t = (2500 * 22050) div (t * 1000)"
  by (simp add: calculate_tick_samples_def SAMPLE_RATE_def c_div_nonneg)

lemma check_effects_keeps_tick_samples:
  "samples_per_tick p = calculate_tick_samples (tempo p) \<Longrightarrow>
   samples_per_tick (check_effects chs p) =
     calculate_tick_samples (tempo (check_effects chs p))"
  by (induction chs arbitrary: p) simp_all

lemma update_tick_tempo:
  "tempo (update_tick m p) = tempo p \<and>
   samples_per_tick (update_tick m p) = samples_per_tick p"
  by (simp add: update_tick_def Let_def)

lemma playback_round_keeps_tick_samples:
  assumes "samples_per_tick (snd cp) = calculate_tick_samples (tempo (snd cp))"
  shows "samples_per_tick (snd (playback_round inc audio m cp)) =
         calculate_tick_samples (tempo (snd (playback_round inc audio m cp)))"
proof (cases cp)
  case (Pair chs p)
  with assms have inv: "samples_per_tick p = calculate_tick_samples (tempo p)" by simp
  show ?thesis
    using inv check_effects_keeps_tick_samples [OF inv]
    by (simp add: Pair playback_round_def row_phase_def Let_def update_tick_tempo)
qed

lemma playback_keeps_tick_samples:
  "samples_per_tick (snd ((playback_round inc audio m ^^ n) (channels_start, player_start))) =
   calculate_tick_samples
     (tempo (snd ((playback_round inc audio m ^^ n) (channels_start, player_start))))"
proof (induction n)
  case 0
  show ?case by (simp add: player_start_def)
next
  case (Suc n)
  then show ?case by (simp add: playback_round_keeps_tick_samples)
qed

lemma set_tempo_effect:
  "effect ch = 0xF \<Longrightarrow> 0x20 \<le> param ch \<Longrightarrow>
   check_effects (ch # chs) p =
     check_effects chs
       (p\<lparr>tempo := uint (param ch),
          samples_per_tick := calculate_tick_samples (uint (param ch))\<rparr>)"
  by (auto simp: word_le_nat_alt)

text \<open>
  Claim C6. The number of samples per tick is the integer quotient of 2500 * 22050 by
  tempo * 1000 (for a positive tempo, the only kind the player passes); it is 441 at
  tempo 125 and 220 at tempo 250. A channel that carries the set-tempo effect (effect
  0xF with a parameter of at least 0x20) stores the new tempo together with the number
  recomputed from it, and after any number of rounds of the playback loop the stored
  number is the one computed from the current tempo.
\<close>

theorem tracker_tempo_arithmetic:
  "(0 < t \<longrightarrow> calculate_tick_samples t = (2500 * 22050) div (t * 1000)) \<and>
   calculate_tick_samples 125 = 441 \<and>
   calculate_tick_samples 250 = 220 \<and>
   (effect ch = 0xF \<and> 0x20 \<le> param ch \<longrightarrow>
      check_effects (ch # chs) p =
        check_effects chs
          (p\<lparr>tempo := uint (param ch),
             samples_per_tick := calculate_tick_samples (uint (param ch))\<rparr>)) \<and>
   samples_per_tick (snd ((playback_round inc audio m ^^ n) (channels_start, player_start))) =
     calculate_tick_samples
       (tempo (snd ((playback_round inc audio m ^^ n) (channels_start, player_start))))"
proof -
  have a: "calculate_tick_samples 125 = 441"
    by (simp add: tick_samples_pos)
  have b: "calculate_tick_samples 250 = 220"
    by (simp add: tick_samples_pos)
  show ?thesis
    using a b tick_samples_pos [of t] set_tempo_effect [of ch chs p]
      playback_keeps_tick_samples [where inc = inc and audio = audio and m = m and n = n]
    by blast
qed

theorem tracker_tempo_arithmetic_witness:
  "(0::int) < 200 \<and> calculate_tick_samples 200 = 275 \<and>
   check_effects
     [\<lparr>period = 0, sample_num = 0, volume = 0, sample_pos = 0, sample_increment = 0,
       effect = 0xF, param = 250\<rparr>] player_start =
     player_start\<lparr>tempo := 250, samples_per_tick := 220\<rparr>"
  using tracker_tempo_arithmetic
    [where t = 200 and chs = "[]" and p = player_start
       and ch = "\<lparr>period = 0, sample_num = 0, volume = 0, sample_pos = 0,
                   sample_increment = 0, effect = 0xF, param = 250\<rparr>"]
  by simp

text \<open>
  Claim C7, evaluated on the code. When the playback loop is entered the tempo is 125
  and the number of ticks per row is 5: on a module whose first row carries no effect,
  the row counter is still 0 after four rounds of the loop and is 1 after the fifth.
\<close>

theorem sequencer_start_values:
  "tempo player_start = 125 \<and>
   ticks_per_row player_start = 5 \<and>
   row (snd ((playback_round zero_increment no_audio silent_mod ^^ 4)
               (channels_start, player_start))) = 0 \<and>
   row (snd ((playback_round zero_increment no_audio silent_mod ^^ 5)
               (channels_start, player_start))) = 1"
  by code_simp

lemma process_row_nth:
  "c < NUM_CHANNELS \<Longrightarrow>
   process_row inc m chs pos r ! c =
     process_note inc m
       (patterns m ! (unat (positions m ! pos) * ROWS_PER_PATTERN * NUM_CHANNELS
                        + r * NUM_CHANNELS + c))
       (chs ! c)"
  by (simp add: process_row_def Let_def)

lemma process_note_set_volume:
  "Note.effect note = 0xC \<Longrightarrow>
   ChannelState.volume (process_note inc m note ch) =
     (if Note.param note \<le> 64 then Note.param note
      else if Note.sample note > 0
           then Sample.volume (samples m ! (unat (Note.sample note) - 1))
           else ChannelState.volume ch)"
  by (simp add: process_note_def Let_def)

text \<open>
  Claim C8 as it is written fails: a set-volume cell with parameter 65, applied on tick 0
  to a channel whose volume is 10, leaves the volume at 10 and does not make it 64.
\<close>

theorem set_volume_counterexample:
  "ChannelState.volume
     (process_row zero_increment
        (silent_mod\<lparr>patterns :=
           (patterns silent_mod)[0 := \<lparr>sample = 0, period = 0, effect = 0xC, param = 65\<rparr>]\<rparr>)
        (channels_start[0 := (channels_start ! 0)\<lparr>ChannelState.volume := 10\<rparr>])
        0 0 ! 0) = 10 \<and>
   ChannelState.volume
     (process_row zero_increment
        (silent_mod\<lparr>patterns :=
           (patterns silent_mod)[0 := \<lparr>sample = 0, period = 0, effect = 0xC, param = 65\<rparr>]\<rparr>)
        (channels_start[0 := (channels_start ! 0)\<lparr>ChannelState.volume := 10\<rparr>])
        0 0 ! 0) \<noteq> 64"
  by code_simp

text \<open>
  Claim C8, amended. For a cell that carries the set-volume effect (0xC), processed on
  tick 0 of its row for channel \<open>c\<close>: when the parameter is at most 64 the channel's
  volume afterwards is the parameter; when the parameter is above 64 the effect does
  nothing, and the volume is the one the sample-change step left: the default volume of
  the sample the cell names, or the channel's previous volume when it names none.
\<close>

theorem set_volume_effect:
  assumes "c < NUM_CHANNELS"
    and "note = patterns m ! (unat (positions m ! pos) * ROWS_PER_PATTERN * NUM_CHANNELS
                                + r * NUM_CHANNELS + c)"
    and "Note.effect note = 0xC"
  shows "ChannelState.volume (process_row inc m chs pos r ! c) =
           (if Note.param note \<le> 64 then Note.param note
            else if Note.sample note > 0
                 then Sample.volume (samples m ! (unat (Note.sample note) - 1))
                 else ChannelState.volume (chs ! c))"
  using assms by (simp add: process_row_nth process_note_set_volume)

theorem set_volume_effect_witness:
  "(0::nat) < NUM_CHANNELS \<and>
   ChannelState.volume
     (process_row zero_increment
        (silent_mod\<lparr>patterns :=
           (patterns silent_mod)[0 := \<lparr>sample = 0, period = 0, effect = 0xC, param = 40\<rparr>]\<rparr>)
        channels_start 0 0 ! 0) = 40"
proof -
  have c: "(0::nat) < NUM_CHANNELS" by (simp add: NUM_CHANNELS_def)
  have n: "\<lparr>sample = 0, period = 0, effect = 0xC, param = 40\<rparr> =
        patterns (silent_mod\<lparr>patterns :=
           (patterns silent_mod)[0 := \<lparr>sample = 0, period = 0, effect = 0xC, param = 40\<rparr>]\<rparr>)
         ! (unat (positions (silent_mod\<lparr>patterns :=
           (patterns silent_mod)[0 := \<lparr>sample = 0, period = 0, effect = 0xC, param = 40\<rparr>]\<rparr>) ! 0)
             * ROWS_PER_PATTERN * NUM_CHANNELS + 0 * NUM_CHANNELS + 0)"
    by (simp add: silent_mod_def ROWS_PER_PATTERN_def NUM_CHANNELS_def)
  have e: "Note.effect \<lparr>sample = 0, period = 0, effect = 0xC, param = 40\<rparr> = 0xC" by simp
  show ?thesis
    using c set_volume_effect [OF c n e, where inc = zero_increment and chs = channels_start]
    by simp
qed

section \<open>Properties of the voices\<close>

lemma unat_succ: "unat t < 4294967295 \<Longrightarrow> unat (t + 1 :: 32 word) = Suc (unat t)"
proof -
  assume "unat t < 4294967295"
  then have "unat t + unat (1 :: 32 word) < 2 ^ LENGTH(32)" by simp
  then have "unat (t + 1) = unat t + unat (1 :: 32 word)"
    by (simp only: unat_add_lem)
  then show ?thesis by simp
qed

lemma ramp_fraction:
  fixes n d :: nat
  assumes "n < d"
  shows "0 \<le> real (Suc n) / real d \<and> real (Suc n) / real d \<le> 1"
  using assms by simp

lemma scaled_ramp:
  fixes x s :: real
  assumes "0 \<le> x \<and> x \<le> 1" and "0 \<le> s" and "s \<le> 1"
  shows "0 \<le> 1 - (1 - s) * x \<and> 1 - (1 - s) * x \<le> 1 \<and> 0 \<le> s * (1 - x) \<and> s * (1 - x) \<le> 1"
proof -
  have "(1 - s) * x \<le> 1 * 1" using assms by (intro mult_mono) auto
  moreover have "0 \<le> (1 - s) * x" using assms by simp
  moreover have "s * (1 - x) \<le> 1 * 1" using assms by (intro mult_mono) auto
  moreover have "0 \<le> s * (1 - x)" using assms by simp
  ultimately show ?thesis by simp
qed

lemma update_adsr_ok: "voice_ok a \<Longrightarrow> voice_ok (update_adsr a)"
proof (cases "adsr_state a")
  case ADSR_IDLE
  assume "voice_ok a"
  with ADSR_IDLE show ?thesis by (simp add: voice_ok_def update_adsr_def)
next
  case ADSR_ATTACK
  assume ok: "voice_ok a"
  with ADSR_ATTACK have t: "unat (adsr_timer a) < ADSR_ATTACK_SAMPLES"
    by (simp add: voice_ok_def)
  then have u: "unat (adsr_timer a + 1) = Suc (unat (adsr_timer a))"
    by (intro unat_succ) (simp add: ADSR_ATTACK_SAMPLES_def)
  show ?thesis using ADSR_ATTACK t u
    by (simp add: voice_ok_def update_adsr_def Let_def ADSR_ATTACK_SAMPLES_def ADSR_DECAY_SAMPLES_def del: of_nat_unat)
next
  case ADSR_DECAY
  assume ok: "voice_ok a"
  with ADSR_DECAY have t: "unat (adsr_timer a) < ADSR_DECAY_SAMPLES"
    by (simp add: voice_ok_def)
  then have u: "unat (adsr_timer a + 1) = Suc (unat (adsr_timer a))"
    by (intro unat_succ) (simp add: ADSR_DECAY_SAMPLES_def)
  have lv:
    "0 \<le> 1 - (1 - ADSR_SUSTAIN_LEVEL) * (real (Suc (unat (adsr_timer a))) / real ADSR_DECAY_SAMPLES)
     \<and> 1 - (1 - ADSR_SUSTAIN_LEVEL) * (real (Suc (unat (adsr_timer a))) / real ADSR_DECAY_SAMPLES) \<le> 1"
    using scaled_ramp [OF ramp_fraction [OF t], of ADSR_SUSTAIN_LEVEL]
    by (simp add: ADSR_SUSTAIN_LEVEL_def del: of_nat_unat of_nat_Suc)
  show ?thesis using ADSR_DECAY t u lv
    by (simp add: voice_ok_def update_adsr_def Let_def ADSR_SUSTAIN_LEVEL_def del: of_nat_unat)
next
  case ADSR_SUSTAIN
  assume "voice_ok a"
  with ADSR_SUSTAIN show ?thesis
    by (simp add: voice_ok_def update_adsr_def Let_def ADSR_SUSTAIN_LEVEL_def ADSR_RELEASE_SAMPLES_def)
next
  case ADSR_RELEASE
  assume ok: "voice_ok a"
  with ADSR_RELEASE have t: "unat (adsr_timer a) < ADSR_RELEASE_SAMPLES" and k: "\<not> key_held a"
    by (simp_all add: voice_ok_def)
  from t have u: "unat (adsr_timer a + 1) = Suc (unat (adsr_timer a))"
    by (intro unat_succ) (simp add: ADSR_RELEASE_SAMPLES_def)
  have lv:
    "0 \<le> ADSR_SUSTAIN_LEVEL * (1 - real (Suc (unat (adsr_timer a))) / real ADSR_RELEASE_SAMPLES)
     \<and> ADSR_SUSTAIN_LEVEL * (1 - real (Suc (unat (adsr_timer a))) / real ADSR_RELEASE_SAMPLES) \<le> 1"
    using scaled_ramp [OF ramp_fraction [OF t], of ADSR_SUSTAIN_LEVEL]
    by (simp add: ADSR_SUSTAIN_LEVEL_def del: of_nat_unat of_nat_Suc)
  show ?thesis using ADSR_RELEASE t u k lv
    by (simp add: voice_ok_def update_adsr_def Let_def del: of_nat_unat)
qed

lemma mix_note_ok: "voice_ok a \<Longrightarrow> voice_ok (mix_note a)"
proof -
  assume ok: "voice_ok a"
  have pos: "\<And>b x. voice_ok (b\<lparr>playback_position := x\<rparr>) = voice_ok b"
    by (simp add: voice_ok_def split: adsr_state_t.splits)
  show ?thesis
    using update_adsr_ok [OF ok] ok by (simp add: mix_note_def Let_def pos)
qed

lemma pool_ok_init: "pool_ok active_notes_init"
  by (simp add: pool_ok_def active_notes_init_def voice_ok_def)

lemma pool_ok_start: "pool_ok notes \<Longrightarrow> pool_ok (start_note f n notes)"
proof -
  assume ok: "pool_ok notes"
  have started: "\<And>b. voice_ok (b\<lparr>note_index := n, playback_position := 0,
       playback_speed := f n / WAVEFORM_BASE_FREQ, adsr_state := ADSR_ATTACK,
       adsr_timer := 0, adsr_level := 0, key_held := True\<rparr>)"
    by (simp add: voice_ok_def ADSR_ATTACK_SAMPLES_def)
  have upd: "\<And>i b. voice_ok b \<Longrightarrow> pool_ok (notes[i := b])"
    using ok by (auto simp: pool_ok_def dest!: subsetD [OF set_update_subset_insert])
  show ?thesis using ok by (simp add: start_note_def Let_def upd started)
qed

lemma pool_ok_stop: "pool_ok notes \<Longrightarrow> pool_ok (stop_note n notes)"
proof -
  have held: "\<And>b. voice_ok b \<Longrightarrow> voice_ok (b\<lparr>key_held := False\<rparr>)"
    by (simp add: voice_ok_def split: adsr_state_t.splits)
  assume "pool_ok notes"
  then show ?thesis by (auto simp: pool_ok_def stop_note_def held)
qed

lemma pool_ok_frame: "pool_ok notes \<Longrightarrow> pool_ok (fst (audio_frame (notes, g)))"
  by (auto simp: pool_ok_def audio_frame_def mix_note_ok)

lemma pool_ok_event: "pool_ok (fst s) \<Longrightarrow> pool_ok (fst (apply_event f s e))"
  by (cases s; cases e) (simp_all add: pool_ok_start pool_ok_stop pool_ok_frame)

lemma run_snoc: "run f (es @ [e]) = apply_event f (run f es) e"
  by (simp add: run_def)

lemma pool_ok_run: "pool_ok (fst (run f es))"
proof (induction es rule: rev_induct)
  case Nil
  show ?case by (simp add: run_def audio_init_def pool_ok_init)
next
  case (snoc e es)
  then show ?case by (simp only: run_snoc pool_ok_event)
qed

text \<open>
  Claim C4. After any sequence of calls of \<^verbatim>\<open>start_note\<close> and \<^verbatim>\<open>stop_note\<close> and
  of per-sample updates, from the pool as \<^verbatim>\<open>app_main\<close> initialises it, every slot has an
  envelope level that is at least 0 and at most 1, and every idle slot has level 0.
\<close>

theorem envelope_invariant:
  "\<forall>a \<in> set (fst (run frequency events)).
     0 \<le> adsr_level a \<and> adsr_level a \<le> 1 \<and>
     (adsr_state a = ADSR_IDLE \<longrightarrow> adsr_level a = 0)"
  using pool_ok_run [of frequency events]
  by (auto simp: pool_ok_def voice_ok_def)

lemma replicate_13: "replicate 13 x = [x, x, x, x, x, x, x, x, x, x, x, x, x]"
  by (simp add: numeral_eq_Suc)

theorem envelope_invariant_witness:
  "\<lparr>note_index = 3, playback_position = 44000 / 26163, playback_speed = 44000 / 26163,
     adsr_state = ADSR_ATTACK, adsr_timer = 1, adsr_level = 1 / 220, key_held = False\<rparr>
     \<in> set (fst (run all_440 [Start 3, Stop 3, Sample_Tick])) \<and>
   (0::real) \<le> 1 / 220 \<and> (1::real) / 220 \<le> 1"
proof -
  have mem: "\<lparr>note_index = 3, playback_position = 44000 / 26163,
      playback_speed = 44000 / 26163, adsr_state = ADSR_ATTACK, adsr_timer = 1,
      adsr_level = 1 / 220, key_held = False\<rparr>
     \<in> set (fst (run all_440 [Start 3, Stop 3, Sample_Tick]))"
    by (simp add: run_def audio_init_def active_notes_init_def MAX_ACTIVE_NOTES_def
        replicate_13 start_note_def stop_note_def NUM_NOTES_def audio_frame_def mix_note_def
        update_adsr_def Let_def all_440_def WAVEFORM_BASE_FREQ_def WAVEFORM_CYCLE_LENGTH_def
        ADSR_ATTACK_SAMPLES_def)
  from mem envelope_invariant [of all_440 "[Start 3, Stop 3, Sample_Tick]", THEN bspec, OF mem]
  show ?thesis by simp
qed

lemma find_slot_match:
  "k < length ns \<Longrightarrow> note_index (ns ! k) = n \<Longrightarrow> \<forall>j<k. note_index (ns ! j) \<noteq> n \<Longrightarrow>
   find_slot n ns i slot = i + int k"
proof (induction ns arbitrary: k i slot)
  case Nil
  then show ?case by simp
next
  case (Cons a ns)
  show ?case
  proof (cases k)
    case 0
    with Cons.prems show ?thesis by simp
  next
    case (Suc k')
    from Cons.prems Suc have head: "note_index a \<noteq> n" by auto
    from Cons.prems Suc have rest: "\<forall>j<k'. note_index (ns ! j) \<noteq> n" by auto
    from Cons.prems Suc have "k' < length ns" "note_index (ns ! k') = n" by auto
    from Cons.IH [OF this rest] head Suc show ?thesis by simp
  qed
qed

lemma find_slot_chosen:
  "\<forall>a \<in> set ns. note_index a \<noteq> n \<Longrightarrow> slot \<noteq> -1 \<Longrightarrow> find_slot n ns i slot = slot"
  by (induction ns arbitrary: i) simp_all

lemma find_slot_idle:
  "\<forall>a \<in> set ns. note_index a \<noteq> n \<Longrightarrow> k < length ns \<Longrightarrow> adsr_state (ns ! k) = ADSR_IDLE \<Longrightarrow>
   \<forall>j<k. adsr_state (ns ! j) \<noteq> ADSR_IDLE \<Longrightarrow> 0 \<le> i \<Longrightarrow>
   find_slot n ns i (-1) = i + int k"
proof (induction ns arbitrary: k i)
  case Nil
  then show ?case by simp
next
  case (Cons a ns)
  from Cons.prems have head: "note_index a \<noteq> n" and tail: "\<forall>a \<in> set ns. note_index a \<noteq> n"
    by auto
  show ?case
  proof (cases k)
    case 0
    with Cons.prems have "adsr_state a = ADSR_IDLE" by simp
    moreover have "i \<noteq> -1" using Cons.prems by simp
    ultimately show ?thesis using head 0 find_slot_chosen [OF tail] by simp
  next
    case (Suc k')
    from Cons.prems Suc have busy: "adsr_state a \<noteq> ADSR_IDLE" by auto
    from Cons.prems Suc have rest: "\<forall>j<k'. adsr_state (ns ! j) \<noteq> ADSR_IDLE" by auto
    from Cons.prems Suc have "k' < length ns" "adsr_state (ns ! k') = ADSR_IDLE" by auto
    from Cons.IH [OF tail this rest, of "i + 1"] Cons.prems head busy Suc
    show ?thesis by simp
  qed
qed

lemma find_slot_none:
  "\<forall>a \<in> set ns. note_index a \<noteq> n \<and> adsr_state a \<noteq> ADSR_IDLE \<Longrightarrow>
   find_slot n ns i (-1) = -1"
  by (induction ns arbitrary: i) simp_all

text \<open>
  Claim C5. For a valid note, \<^verbatim>\<open>start_note\<close> takes the first slot that already holds
  the note; when no slot holds it, the first idle slot in pool order; when there is
  neither, the pool is left as it is. The slot taken gets the note, position 0, speed
  frequency / base frequency, state attack, timer 0, level 0 and the key held; all other
  slots stay as they are.
\<close>

theorem voice_start_contract:
  assumes "0 \<le> n" and "n < NUM_NOTES"
  shows "(k < length pool \<and> note_index (pool ! k) = n \<and>
            (\<forall>j<k. note_index (pool ! j) \<noteq> n) \<or>
          (\<forall>a \<in> set pool. note_index a \<noteq> n) \<and> k < length pool \<and>
            adsr_state (pool ! k) = ADSR_IDLE \<and>
            (\<forall>j<k. adsr_state (pool ! j) \<noteq> ADSR_IDLE)
          \<longrightarrow> start_note frequency n pool =
                pool[k := (pool ! k)
                  \<lparr>note_index := n,
                   playback_position := 0,
                   playback_speed := frequency n / WAVEFORM_BASE_FREQ,
                   adsr_state := ADSR_ATTACK,
                   adsr_timer := 0,
                   adsr_level := 0,
                   key_held := True\<rparr>]) \<and>
         ((\<forall>a \<in> set pool. note_index a \<noteq> n \<and> adsr_state a \<noteq> ADSR_IDLE)
          \<longrightarrow> start_note frequency n pool = pool)"
proof -
  have valid: "\<not> (n < 0 \<or> n \<ge> NUM_NOTES)" using assms by simp
  have a: "start_note frequency n pool = pool[k := (pool ! k)
                  \<lparr>note_index := n, playback_position := 0,
                   playback_speed := frequency n / WAVEFORM_BASE_FREQ,
                   adsr_state := ADSR_ATTACK, adsr_timer := 0, adsr_level := 0,
                   key_held := True\<rparr>]"
    if "k < length pool" "note_index (pool ! k) = n" "\<forall>j<k. note_index (pool ! j) \<noteq> n"
    using valid find_slot_match [OF that, of 0 "-1"]
    by (simp add: start_note_def)
  have b: "start_note frequency n pool = pool[k := (pool ! k)
                  \<lparr>note_index := n, playback_position := 0,
                   playback_speed := frequency n / WAVEFORM_BASE_FREQ,
                   adsr_state := ADSR_ATTACK, adsr_timer := 0, adsr_level := 0,
                   key_held := True\<rparr>]"
    if "\<forall>a \<in> set pool. note_index a \<noteq> n" "k < length pool"
       "adsr_state (pool ! k) = ADSR_IDLE" "\<forall>j<k. adsr_state (pool ! j) \<noteq> ADSR_IDLE"
    using valid find_slot_idle [OF that, of 0]
    by (simp add: start_note_def)
  have c: "start_note frequency n pool = pool"
    if "\<forall>a \<in> set pool. note_index a \<noteq> n \<and> adsr_state a \<noteq> ADSR_IDLE"
    using valid find_slot_none [OF that, of 0]
    by (simp add: start_note_def)
  from a b c show ?thesis by blast
qed

theorem voice_start_contract_witness:
  "(0::int) \<le> 3 \<and> 3 < NUM_NOTES \<and>
   0 < length active_notes_init \<and>
   adsr_state (active_notes_init ! 0) = ADSR_IDLE \<and>
   start_note all_440 3 active_notes_init =
     active_notes_init[0 :=
       \<lparr>note_index = 3, playback_position = 0, playback_speed = 44000 / 26163,
        adsr_state = ADSR_ATTACK, adsr_timer = 0, adsr_level = 0, key_held = True\<rparr>]"
proof -
  have n: "(0::int) \<le> 3" "3 < NUM_NOTES" by (simp_all add: NUM_NOTES_def)
  have h: "(\<forall>a \<in> set active_notes_init. note_index a \<noteq> 3) \<and>
           0 < length active_notes_init \<and>
           adsr_state (active_notes_init ! 0) = ADSR_IDLE \<and>
           (\<forall>j<0. adsr_state (active_notes_init ! j) \<noteq> ADSR_IDLE)"
    by (simp add: active_notes_init_def MAX_ACTIVE_NOTES_def)
  have v: "(active_notes_init ! 0)
             \<lparr>note_index := 3, playback_position := 0,
              playback_speed := all_440 3 / WAVEFORM_BASE_FREQ,
              adsr_state := ADSR_ATTACK, adsr_timer := 0, adsr_level := 0,
              key_held := True\<rparr> =
           \<lparr>note_index = 3, playback_position = 0, playback_speed = 44000 / 26163,
            adsr_state = ADSR_ATTACK, adsr_timer = 0, adsr_level = 0, key_held = True\<rparr>"
    by (simp add: active_notes_init_def MAX_ACTIVE_NOTES_def all_440_def WAVEFORM_BASE_FREQ_def)
  from voice_start_contract [OF n, where k = 0 and pool = active_notes_init
      and frequency = all_440] h
  have "start_note all_440 3 active_notes_init =
     active_notes_init[0 := (active_notes_init ! 0)
             \<lparr>note_index := 3, playback_position := 0,
              playback_speed := all_440 3 / WAVEFORM_BASE_FREQ,
              adsr_state := ADSR_ATTACK, adsr_timer := 0, adsr_level := 0,
              key_held := True\<rparr>]"
    by blast
  with n h v show ?thesis by simp
qed

text \<open>
  Claim C10. A call of \<^verbatim>\<open>start_note\<close> or \<^verbatim>\<open>stop_note\<close> with a note index below 0 or at
  or above \<^verbatim>\<open>NUM_NOTES\<close> returns at once: the pool, every field of every slot, is
  unchanged.
\<close>

theorem invalid_note_noop:
  "n < 0 \<or> NUM_NOTES \<le> n \<Longrightarrow>
   start_note frequency n notes = notes \<and> stop_note n notes = notes"
  by (simp add: start_note_def stop_note_def)

theorem invalid_note_noop_witness:
  "((13::int) < 0 \<or> NUM_NOTES \<le> 13) \<and>
   start_note all_440 13 active_notes_init = active_notes_init \<and>
   stop_note 13 active_notes_init = active_notes_init"
proof -
  have h: "(13::int) < 0 \<or> NUM_NOTES \<le> 13" by (simp add: NUM_NOTES_def)
  from h invalid_note_noop [OF h, of all_440 active_notes_init] show ?thesis by simp
qed

lemma unat_timer: "j < 4294967296 \<Longrightarrow> unat (of_nat j :: 32 word) = j"
  by (simp add: unat_of_nat)

lemma release_entry:
  "adsr_state v = ADSR_SUSTAIN \<Longrightarrow> \<not> key_held v \<Longrightarrow>
   update_adsr v =
     v\<lparr>adsr_level := ADSR_SUSTAIN_LEVEL, adsr_state := ADSR_RELEASE, adsr_timer := 0\<rparr>"
  by (simp add: update_adsr_def Let_def)

lemma release_step:
  assumes "adsr_state r = ADSR_RELEASE" and "adsr_timer r = of_nat j"
    and "Suc j < ADSR_RELEASE_SAMPLES"
  shows "update_adsr r =
     r\<lparr>adsr_timer := of_nat (Suc j),
       adsr_level := ADSR_SUSTAIN_LEVEL * (1 - real (Suc j) / real ADSR_RELEASE_SAMPLES)\<rparr>"
proof -
  have "Suc j < 4294967296" using assms(3) by (simp add: ADSR_RELEASE_SAMPLES_def)
  then have u: "unat (of_nat j + 1 :: 32 word) = Suc j"
    using unat_timer [of "Suc j"] by (simp add: add.commute)
  have w: "(of_nat (Suc j) :: 32 word) = of_nat j + 1" by simp
  show ?thesis using assms u
    by (simp add: update_adsr_def Let_def w del: of_nat_unat of_nat_Suc)
qed

lemma release_last:
  assumes "adsr_state r = ADSR_RELEASE" and "adsr_timer r = of_nat j"
    and "ADSR_RELEASE_SAMPLES \<le> Suc j" and "Suc j < 4294967296"
  shows "update_adsr r =
     r\<lparr>adsr_timer := of_nat (Suc j), adsr_level := 0, adsr_state := ADSR_IDLE,
       note_index := -1\<rparr>"
proof -
  have u: "unat (of_nat j + 1 :: 32 word) = Suc j"
    using unat_timer [of "Suc j"] assms(4) by (simp add: add.commute)
  have w: "(of_nat (Suc j) :: 32 word) = of_nat j + 1" by simp
  show ?thesis using assms(1-3) u
    by (simp add: update_adsr_def Let_def w del: of_nat_unat of_nat_Suc)
qed

lemma release_ramp:
  assumes "adsr_state v = ADSR_SUSTAIN" and "\<not> key_held v"
  shows "j < ADSR_RELEASE_SAMPLES \<Longrightarrow>
     (update_adsr ^^ Suc j) v =
        v\<lparr>adsr_level := ADSR_SUSTAIN_LEVEL * (1 - real j / real ADSR_RELEASE_SAMPLES),
          adsr_state := ADSR_RELEASE, adsr_timer := of_nat j\<rparr>"
proof (induction j)
  case 0
  show ?case using release_entry [OF assms] by simp
next
  case (Suc j)
  then have prev: "(update_adsr ^^ Suc j) v =
        v\<lparr>adsr_level := ADSR_SUSTAIN_LEVEL * (1 - real j / real ADSR_RELEASE_SAMPLES),
          adsr_state := ADSR_RELEASE, adsr_timer := of_nat j\<rparr>" by simp
  have "(update_adsr ^^ Suc (Suc j)) v = update_adsr ((update_adsr ^^ Suc j) v)"
    by simp
  also have "\<dots> = update_adsr (v\<lparr>adsr_level := ADSR_SUSTAIN_LEVEL * (1 - real j / real ADSR_RELEASE_SAMPLES),
          adsr_state := ADSR_RELEASE, adsr_timer := of_nat j\<rparr>)"
    by (simp only: prev)
  also have "\<dots> = v\<lparr>adsr_level := ADSR_SUSTAIN_LEVEL * (1 - real (Suc j) / real ADSR_RELEASE_SAMPLES),
          adsr_state := ADSR_RELEASE, adsr_timer := of_nat (Suc j)\<rparr>"
    using release_step [of "v\<lparr>adsr_level := ADSR_SUSTAIN_LEVEL * (1 - real j / real ADSR_RELEASE_SAMPLES),
          adsr_state := ADSR_RELEASE, adsr_timer := of_nat j\<rparr>" j] Suc.prems
    by (simp del: of_nat_Suc)
  finally show ?case .
qed

lemma release_done:
  assumes "adsr_state v = ADSR_SUSTAIN" and "\<not> key_held v"
  shows "(update_adsr ^^ Suc ADSR_RELEASE_SAMPLES) v =
        v\<lparr>adsr_level := 0, adsr_state := ADSR_IDLE,
          adsr_timer := of_nat ADSR_RELEASE_SAMPLES, note_index := -1\<rparr>"
proof -
  obtain j where j: "ADSR_RELEASE_SAMPLES = Suc j"
    by (cases ADSR_RELEASE_SAMPLES) (simp_all add: ADSR_RELEASE_SAMPLES_def)
  then have lt: "j < ADSR_RELEASE_SAMPLES" by simp
  have "(update_adsr ^^ Suc (Suc j)) v = update_adsr ((update_adsr ^^ Suc j) v)"
    by simp
  also have "\<dots> = update_adsr (v\<lparr>adsr_level := ADSR_SUSTAIN_LEVEL * (1 - real j / real ADSR_RELEASE_SAMPLES),
          adsr_state := ADSR_RELEASE, adsr_timer := of_nat j\<rparr>)"
    by (simp only: release_ramp [OF assms lt])
  also have "\<dots> = v\<lparr>adsr_level := 0, adsr_state := ADSR_IDLE,
          adsr_timer := of_nat (Suc j), note_index := -1\<rparr>"
    using release_last [of "v\<lparr>adsr_level := ADSR_SUSTAIN_LEVEL * (1 - real j / real ADSR_RELEASE_SAMPLES),
          adsr_state := ADSR_RELEASE, adsr_timer := of_nat j\<rparr>" j] j
    by (simp add: ADSR_RELEASE_SAMPLES_def del: of_nat_Suc)
  finally show ?thesis by (simp only: j)
qed

lemma stop_note_settled:
  assumes "pool_ok notes"
    and "\<forall>a \<in> set notes. note_index a = n \<longrightarrow>
           adsr_state a = ADSR_IDLE \<or> adsr_state a = ADSR_RELEASE"
  shows "stop_note n notes = notes"
proof (cases "n < 0 \<or> n \<ge> NUM_NOTES")
  case True
  then show ?thesis by (simp add: stop_note_def)
next
  case False
  have "(if note_index a = n then a\<lparr>key_held := False\<rparr> else a) = a" if "a \<in> set notes" for a
  proof (cases "note_index a = n")
    case True
    with assms that have ok: "voice_ok a"
      and st: "adsr_state a = ADSR_IDLE \<or> adsr_state a = ADSR_RELEASE"
      by (auto simp: pool_ok_def)
    from ok True False have "adsr_state a \<noteq> ADSR_IDLE"
      by (auto simp: voice_ok_def)
    with st ok have "\<not> key_held a" by (auto simp: voice_ok_def)
    then show ?thesis by simp
  next
    case False
    then show ?thesis by simp
  qed
  then have "map (\<lambda>a. if note_index a = n then a\<lparr>key_held := False\<rparr> else a) notes = notes"
    by (simp add: map_idI)
  with False show ?thesis by (simp add: stop_note_def)
qed

lemma stop_note_twice: "stop_note n (stop_note n notes) = stop_note n notes"
  by (simp add: stop_note_def comp_def)

text \<open>
  Claim C3. A slot in its sustain phase whose key is no longer held enters the release
  phase at its next update, at the sustain level and with timer 0. From there the level
  falls linearly: after \<open>j\<close> further updates, \<open>j\<close> below the release length, the slot is
  still releasing, its timer is \<open>j\<close> and its level is the sustain level times
  \<open>1 - j / ADSR_RELEASE_SAMPLES\<close>. At the update that brings the timer to the release
  length the slot becomes idle, its level 0 and its note index -1. Calling
  \<^verbatim>\<open>stop_note\<close> for a note whose slots are all idle or releasing, in any pool that the
  program can reach, changes nothing; and a second \<^verbatim>\<open>stop_note\<close> right after a first
  changes nothing either.
\<close>

theorem release_completion:
  assumes "adsr_state v = ADSR_SUSTAIN" and "\<not> key_held v"
  shows "(j < ADSR_RELEASE_SAMPLES \<longrightarrow>
            (update_adsr ^^ Suc j) v =
              v\<lparr>adsr_level := ADSR_SUSTAIN_LEVEL * (1 - real j / real ADSR_RELEASE_SAMPLES),
                adsr_state := ADSR_RELEASE, adsr_timer := of_nat j\<rparr>) \<and>
         (update_adsr ^^ Suc ADSR_RELEASE_SAMPLES) v =
            v\<lparr>adsr_level := 0, adsr_state := ADSR_IDLE,
              adsr_timer := of_nat ADSR_RELEASE_SAMPLES, note_index := -1\<rparr> \<and>
         ((\<forall>a \<in> set (fst (run frequency events)). note_index a = n \<longrightarrow>
              adsr_state a = ADSR_IDLE \<or> adsr_state a = ADSR_RELEASE) \<longrightarrow>
            stop_note n (fst (run frequency events)) = fst (run frequency events)) \<and>
         stop_note n (stop_note n pool) = stop_note n pool"
  using release_ramp [OF assms, of j] release_done [OF assms]
    stop_note_settled [OF pool_ok_run, of frequency events n] stop_note_twice [of n pool]
  by blast

theorem release_completion_witness:
  "adsr_state \<lparr>note_index = 3, playback_position = 0, playback_speed = 1,
      adsr_state = ADSR_SUSTAIN, adsr_timer = 4410, adsr_level = 7 / 10,
      key_held = False\<rparr> = ADSR_SUSTAIN \<and>
   \<not> key_held \<lparr>note_index = 3, playback_position = 0, playback_speed = 1,
      adsr_state = ADSR_SUSTAIN, adsr_timer = 4410, adsr_level = 7 / 10,
      key_held = False\<rparr> \<and>
   (1::nat) < ADSR_RELEASE_SAMPLES \<and>
   (update_adsr ^^ Suc 1)
      \<lparr>note_index = 3, playback_position = 0, playback_speed = 1,
       adsr_state = ADSR_SUSTAIN, adsr_timer = 4410, adsr_level = 7 / 10,
       key_held = False\<rparr> =
     \<lparr>note_index = 3, playback_position = 0, playback_speed = 1,
      adsr_state = ADSR_RELEASE, adsr_timer = 1, adsr_level = 7 / 10 * (1 - 1 / 2205),
      key_held = False\<rparr> \<and>
   (update_adsr ^^ Suc ADSR_RELEASE_SAMPLES)
      \<lparr>note_index = 3, playback_position = 0, playback_speed = 1,
       adsr_state = ADSR_SUSTAIN, adsr_timer = 4410, adsr_level = 7 / 10,
       key_held = False\<rparr> =
     \<lparr>note_index = -1, playback_position = 0, playback_speed = 1,
      adsr_state = ADSR_IDLE, adsr_timer = 2205, adsr_level = 0, key_held = False\<rparr> \<and>
   stop_note 3 (fst (run all_440 [])) = fst (run all_440 [])"
proof -
  have s: "adsr_state \<lparr>note_index = 3, playback_position = 0, playback_speed = 1,
      adsr_state = ADSR_SUSTAIN, adsr_timer = 4410, adsr_level = 7 / 10,
      key_held = False\<rparr> = ADSR_SUSTAIN" by simp
  have k: "\<not> key_held \<lparr>note_index = 3, playback_position = 0, playback_speed = 1,
      adsr_state = ADSR_SUSTAIN, adsr_timer = 4410, adsr_level = 7 / 10,
      key_held = False\<rparr>" by simp
  have j: "(1::nat) < ADSR_RELEASE_SAMPLES" by (simp add: ADSR_RELEASE_SAMPLES_def)
  have idle: "\<forall>a \<in> set (fst (run all_440 [])). note_index a = 3 \<longrightarrow>
              adsr_state a = ADSR_IDLE \<or> adsr_state a = ADSR_RELEASE"
    by (simp add: run_def audio_init_def active_notes_init_def)
  from release_completion [OF s k, where j = 1 and frequency = all_440 and events = "[]"
      and n = 3] j idle
  show ?thesis
    by (simp add: ADSR_RELEASE_SAMPLES_def ADSR_SUSTAIN_LEVEL_def)
qed

lemma normalize_active:
  "0 < k \<Longrightarrow> normalize k g = g + 1 / 100 * (1 / sqrt (real k) - g)"
  by (simp add: normalize_def Let_def)

lemma normalize_idle: "normalize 0 g = 1"
  by (simp add: normalize_def)

lemma smoothing_error:
  fixes g t :: real
  shows "g + 1 / 100 * (t - g) - t = 99 / 100 * (g - t)"
  by argo

lemma smoothing_range:
  fixes g t :: real
  assumes "0 \<le> g" and "g \<le> 1" and "0 \<le> t" and "t \<le> 1"
  shows "0 \<le> g + 1 / 100 * (t - g) \<and> g + 1 / 100 * (t - g) \<le> 1"
  using assms by argo

lemma normalize_error:
  "0 < k \<Longrightarrow> normalize k g - 1 / sqrt (real k) = 99 / 100 * (g - 1 / sqrt (real k))"
  by (simp only: normalize_active smoothing_error)

lemma normalize_iterated_error:
  "0 < k \<Longrightarrow>
   (normalize k ^^ n) g - 1 / sqrt (real k) = (99 / 100) ^ n * (g - 1 / sqrt (real k))"
proof (induction n)
  case 0
  show ?case by simp
next
  case (Suc n)
  then show ?case by (simp add: normalize_error)
qed

lemma ninety_nine_percent: "(99 / 100 :: real) ^ 1000 \<le> 1 / 1024"
proof -
  have "1 + real 100 * (1 / 99) \<le> (1 + 1 / 99 :: real) ^ 100"
    by (rule Bernoulli_inequality) simp
  then have two: "(2 :: real) \<le> (100 / 99) ^ 100" by simp
  have "(99 / 100 :: real) ^ 100 = 1 / (100 / 99) ^ 100"
    by (simp add: power_divide)
  also have "\<dots> \<le> 1 / 2"
    using two by (simp add: field_simps del: power_divide)
  finally have half: "(99 / 100 :: real) ^ 100 \<le> 1 / 2" .
  have "(99 / 100 :: real) ^ 1000 = ((99 / 100) ^ 100) ^ 10"
    by (simp only: power_mult [symmetric]) simp
  also have "\<dots> \<le> (1 / 2) ^ 10"
    using half by (intro power_mono) simp_all
  also have "\<dots> = 1 / 1024" by (simp add: power_one_over)
  finally show ?thesis .
qed

lemma target_bounds:
  assumes "0 < k" and "k \<le> MAX_ACTIVE_NOTES"
  shows "1 / 4 \<le> 1 / sqrt (real k) \<and> 1 / sqrt (real k) \<le> 1"
proof -
  have "real k \<le> 16" using assms by (simp add: MAX_ACTIVE_NOTES_def)
  then have "sqrt (real k) \<le> sqrt 16" by (simp only: real_sqrt_le_iff)
  then have up: "sqrt (real k) \<le> 4" by simp
  have "1 \<le> real k" using assms by simp
  then have lo: "1 \<le> sqrt (real k)" by simp
  from up lo show ?thesis by (simp add: field_simps)
qed

lemma normalize_converges:
  assumes "0 < k" and "k \<le> MAX_ACTIVE_NOTES" and "0 \<le> g" and "g \<le> 1" and "1000 \<le> n"
  shows "\<bar>(normalize k ^^ n) g - 1 / sqrt (real k)\<bar> \<le> 1 / 100 * (1 / sqrt (real k))"
proof -
  note t = target_bounds [OF assms(1,2)]
  have dist: "\<bar>g - 1 / sqrt (real k)\<bar> \<le> 1" using t assms(3,4) by linarith
  have "(99 / 100 :: real) ^ n \<le> (99 / 100) ^ 1000"
    using assms(5) by (intro power_decreasing) simp_all
  then have p: "(99 / 100 :: real) ^ n \<le> 1 / 1024" using ninety_nine_percent by linarith
  have "\<bar>(normalize k ^^ n) g - 1 / sqrt (real k)\<bar> = (99 / 100) ^ n * \<bar>g - 1 / sqrt (real k)\<bar>"
    by (simp only: normalize_iterated_error [OF assms(1)] abs_mult) simp
  also have "\<dots> \<le> 1 / 1024 * 1"
    using p dist by (intro mult_mono) simp_all
  also have "\<dots> \<le> 1 / 100 * (1 / sqrt (real k))" using t by linarith
  finally show ?thesis .
qed

lemma normalize_idle_iterated: "1 \<le> n \<Longrightarrow> (normalize 0 ^^ n) g = 1"
  by (cases n) (simp_all add: normalize_idle)

lemma normalize_range: "0 \<le> g \<Longrightarrow> g \<le> 1 \<Longrightarrow> 0 \<le> normalize k g \<and> normalize k g \<le> 1"
proof (cases "0 < k")
  case False
  then show ?thesis by (simp add: normalize_def)
next
  case True
  assume g: "0 \<le> g" "g \<le> 1"
  have "1 \<le> real k" using True by simp
  then have "1 \<le> sqrt (real k)" by simp
  then have t: "0 \<le> 1 / sqrt (real k) \<and> 1 / sqrt (real k) \<le> 1" by (simp add: field_simps)
  show ?thesis using smoothing_range [OF g] t
    by (simp only: normalize_active [OF True])
qed

lemma gain_event: "0 \<le> snd s \<and> snd s \<le> 1 \<Longrightarrow> 0 \<le> snd (apply_event f s e) \<and> snd (apply_event f s e) \<le> 1"
  by (cases s; cases e) (simp_all add: audio_frame_def normalize_range)

lemma gain_run: "0 \<le> snd (run f es) \<and> snd (run f es) \<le> 1"
proof (induction es rule: rev_induct)
  case Nil
  show ?case by (simp add: run_def audio_init_def)
next
  case (snoc e es)
  then show ?case by (simp only: run_snoc gain_event)
qed

lemma length_event: "length (fst (apply_event f s e)) = length (fst s)"
  by (cases s; cases e) (simp_all add: audio_frame_def start_note_def stop_note_def Let_def)

lemma length_run: "length (fst (run f es)) = MAX_ACTIVE_NOTES"
proof (induction es rule: rev_induct)
  case Nil
  show ?case by (simp add: run_def audio_init_def active_notes_init_def)
next
  case (snoc e es)
  then show ?case by (simp only: run_snoc length_event)
qed

lemma active_count_run: "active_count (fst (run f es)) \<le> MAX_ACTIVE_NOTES"
  using length_run [of f es] length_filter_le [of "\<lambda>n. adsr_state n \<noteq> ADSR_IDLE" "fst (run f es)"]
  by (simp add: active_count_def)

text \<open>
  Claim C2 as it is written fails when no note is active: with every slot idle and a
  normalization factor of 1/2, one round of the frame loop sets the factor to 1 at once,
  not to 1/2 + 0.01 * (1 - 1/2).
\<close>

theorem normalization_counterexample:
  "active_count active_notes_init = 0 \<and>
   snd (audio_frame (active_notes_init, 1 / 2)) = 1 \<and>
   snd (audio_frame (active_notes_init, 1 / 2)) \<noteq> 1 / 2 + 1 / 100 * (1 - 1 / 2)"
  by (simp add: audio_frame_def normalize_def active_count_def active_notes_init_def)

text \<open>
  Claim C2, amended. While at least one note is active the factor moves towards
  1 / sqrt(active_count) by one hundredth of the distance per sample; when no note is
  active it is set to 1 at once, without smoothing. The factor the program holds is
  always between 0 and 1 and the number of active notes is at most the pool size 13.
  Consequently, from any such factor, if the number of active notes stays at \<open>k\<close>
  (between 1 and 13) for at least 1000 samples, the factor ends within one percent of
  1 / sqrt(k); and if it stays at 0 for at least one sample the factor is exactly 1.
  (The arithmetic is that of the real numbers.)
\<close>

theorem normalization_convergence:
  "(0 < k \<longrightarrow> normalize k g = g + 1 / 100 * (1 / sqrt (real k) - g)) \<and>
   normalize 0 g = 1 \<and>
   (0 < k \<and> k \<le> MAX_ACTIVE_NOTES \<and> 0 \<le> g \<and> g \<le> 1 \<and> 1000 \<le> n \<longrightarrow>
      \<bar>(normalize k ^^ n) g - 1 / sqrt (real k)\<bar> \<le> 1 / 100 * (1 / sqrt (real k))) \<and>
   (1 \<le> n \<longrightarrow> (normalize 0 ^^ n) g = 1) \<and>
   snd (audio_frame (pool, g)) = normalize (active_count pool) g \<and>
   0 \<le> snd (run frequency events) \<and> snd (run frequency events) \<le> 1 \<and>
   active_count (fst (run frequency events)) \<le> MAX_ACTIVE_NOTES"
proof -
  have frame: "snd (audio_frame (pool, g)) = normalize (active_count pool) g"
    by (simp add: audio_frame_def)
  show ?thesis
    using normalize_active [of k g] normalize_idle [of g]
      normalize_converges [of k g n] normalize_idle_iterated [of n g] frame
      gain_run [of frequency events] active_count_run [of frequency events]
    by blast
qed

theorem normalization_convergence_witness:
  "(0::nat) < 4 \<and> 4 \<le> MAX_ACTIVE_NOTES \<and> (0::real) \<le> 1 \<and> (1000::nat) \<le> 1000 \<and>
   \<bar>(normalize 4 ^^ 1000) 1 - 1 / 2\<bar> \<le> 1 / 200"
proof -
  have h: "(0::nat) < 4 \<and> 4 \<le> MAX_ACTIVE_NOTES \<and> (0::real) \<le> 1 \<and> (1::real) \<le> 1 \<and>
           (1000::nat) \<le> 1000"
    by (simp add: MAX_ACTIVE_NOTES_def)
  from normalization_convergence [where k = 4 and g = 1 and n = 1000] h
  have "\<bar>(normalize 4 ^^ 1000) 1 - 1 / sqrt (real 4)\<bar> \<le> 1 / 100 * (1 / sqrt (real 4))"
    by blast
  with h show ?thesis by simp
qed

end
